theory Spec2Isabelle
  imports Complex_Main "HOL-Library.Sublist" "HOL-Library.AList"
begin

section \<open>Python text primitives\<close>

text \<open>
  A Python \<open>str\<close> is modelled as a \<open>string\<close>, one \<open>char\<close> per code point, so that
  \<open>length\<close> is Python's \<open>len\<close>. A \<open>char\<close> ranges over the code points 0 to 255, and on that
  range the whitespace test and the case mappings below are those of \<open>str.isspace\<close>,
  \<open>str.lower\<close> and \<open>str.upper\<close>: twelve whitespace characters (among them U+0085 and the
  no-break space U+00A0), the 26 ASCII letters and the 30 cased letters of Latin-1 with
  both forms in the range, and the sharp s U+00DF, whose upper case is the two characters
  \<open>SS\<close>. The upper-case forms of U+00B5 and U+00FF are U+039C and U+0178, which no \<open>char\<close>
  holds; \<open>upper\<close> leaves these two characters in place.
\<close>

datatype py_error = ValueError | IndexError | GenerationError

definition isspace :: "char \<Rightarrow> bool" where
  "isspace c = (c \<in> set [CHR 0x09, CHR 0x0A, CHR 0x0B, CHR 0x0C, CHR 0x0D,
                          CHR 0x1C, CHR 0x1D, CHR 0x1E, CHR 0x1F, CHR '' '',
                          CHR 0x85, CHR 0xA0])"

definition upper_letters :: string where
  "upper_letters = ''ABCDEFGHIJKLMNOPQRSTUVWXYZ'' @
     [CHR 0xC0, CHR 0xC1, CHR 0xC2, CHR 0xC3, CHR 0xC4, CHR 0xC5, CHR 0xC6, CHR 0xC7,
      CHR 0xC8, CHR 0xC9, CHR 0xCA, CHR 0xCB, CHR 0xCC, CHR 0xCD, CHR 0xCE, CHR 0xCF,
      CHR 0xD0, CHR 0xD1, CHR 0xD2, CHR 0xD3, CHR 0xD4, CHR 0xD5, CHR 0xD6, CHR 0xD8,
      CHR 0xD9, CHR 0xDA, CHR 0xDB, CHR 0xDC, CHR 0xDD, CHR 0xDE]"

definition lower_letters :: string where
  "lower_letters = ''abcdefghijklmnopqrstuvwxyz'' @
     [CHR 0xE0, CHR 0xE1, CHR 0xE2, CHR 0xE3, CHR 0xE4, CHR 0xE5, CHR 0xE6, CHR 0xE7,
      CHR 0xE8, CHR 0xE9, CHR 0xEA, CHR 0xEB, CHR 0xEC, CHR 0xED, CHR 0xEE, CHR 0xEF,
      CHR 0xF0, CHR 0xF1, CHR 0xF2, CHR 0xF3, CHR 0xF4, CHR 0xF5, CHR 0xF6, CHR 0xF8,
      CHR 0xF9, CHR 0xFA, CHR 0xFB, CHR 0xFC, CHR 0xFD, CHR 0xFE]"

definition lower_char :: "char \<Rightarrow> char" where
  "lower_char c = (case map_of (zip upper_letters lower_letters) c of Some d \<Rightarrow> d | None \<Rightarrow> c)"

definition upper_char :: "char \<Rightarrow> char" where
  "upper_char c = (case map_of (zip lower_letters upper_letters) c of Some d \<Rightarrow> d | None \<Rightarrow> c)"

definition upper_chars :: "char \<Rightarrow> string" where
  "upper_chars c = (if c = CHR 0xDF then ''SS'' else [upper_char c])"

definition lower :: "string \<Rightarrow> string" where
  "lower s = map lower_char s"

definition upper :: "string \<Rightarrow> string" where
  "upper s = concat (map upper_chars s)"

text \<open>\<open>s.strip()\<close>: whitespace removed at both ends.\<close>

definition strip :: "string \<Rightarrow> string" where
  "strip s = rev (dropWhile isspace (rev (dropWhile isspace s)))"

text \<open>\<open>pattern in s\<close> on strings: \<open>pattern\<close> occurs as a contiguous run of \<open>s\<close>.\<close>

fun contains :: "string \<Rightarrow> string \<Rightarrow> bool" where
  "contains p [] = (p = [])"
| "contains p (c # cs) = (prefix p (c # cs) \<or> contains p cs)"

text \<open>\<open>str(n)\<close> for an integer: decimal digits, with a minus sign when negative.\<close>

definition digit_char :: "nat \<Rightarrow> char" where
  "digit_char d = ''0123456789'' ! d"

fun str_nat :: "nat \<Rightarrow> string" where
  "str_nat n = (if n < 10 then [digit_char n] else str_nat (n div 10) @ [digit_char (n mod 10)])"

definition str_int :: "int \<Rightarrow> string" where
  "str_int k = (if k < 0 then CHR ''-'' # str_nat (nat (- k)) else str_nat (nat k))"

section \<open>Input guard\<close>

definition MAX_INPUT_LENGTH :: int where
  "MAX_INPUT_LENGTH = 2000"

definition PROMPT_INJECTION_PATTERNS :: "string list" where
  "PROMPT_INJECTION_PATTERNS =
     [''ignore previous'',
      ''ignore all previous'',
      ''ignore all'',
      ''disregard previous'',
      ''forget previous'',
      ''ignore instructions'',
      ''new instructions'',
      ''system prompt'',
      ''you are now'',
      ''act as'',
      ''from now on'']"

text \<open>The \<open>for pattern in ...: if pattern in text_lower: return True\<close> loop.\<close>

fun any_pattern_in :: "string list \<Rightarrow> string \<Rightarrow> bool" where
  "any_pattern_in [] text_lower = False"
| "any_pattern_in (pattern # rest) text_lower =
     (if contains pattern text_lower then True else any_pattern_in rest text_lower)"

definition check_prompt_injection :: "string \<Rightarrow> bool" where
  "check_prompt_injection text = any_pattern_in PROMPT_INJECTION_PATTERNS (lower text)"

definition empty_message :: string where
  "empty_message = ''Input cannot be empty.''"

definition length_message :: "int \<Rightarrow> string" where
  "length_message max_length =
     ''Input too long. Maximum '' @ str_int max_length @ '' characters allowed.''"

definition injection_message :: string where
  "injection_message = ''Invalid input detected. Please rephrase your question appropriately.''"

definition validate_input :: "string \<Rightarrow> int \<Rightarrow> bool \<times> string option" where
  "validate_input text max_length =
     (if text = [] \<or> strip text = [] then (False, Some empty_message)
      else if int (length text) > max_length then (False, Some (length_message max_length))
      else if check_prompt_injection text then (False, Some injection_message)
      else (True, None))"

text \<open>
  Vocabulary of the statements about the guard. A text is blank when it is empty or all
  whitespace. A phrase occurs in a text in any casing when some contiguous run of the text
  equals the phrase up to the case of each letter.
\<close>

definition same_letter :: "char \<Rightarrow> char \<Rightarrow> bool" where
  "same_letter c d = (c = d \<or> (c, d) \<in> set (zip upper_letters lower_letters)
                            \<or> (d, c) \<in> set (zip upper_letters lower_letters))"

fun ci_prefix :: "string \<Rightarrow> string \<Rightarrow> bool" where
  "ci_prefix [] s = True"
| "ci_prefix (d # p) [] = False"
| "ci_prefix (d # p) (c # s) = (same_letter c d \<and> ci_prefix p s)"

fun occurs_any_casing :: "string \<Rightarrow> string \<Rightarrow> bool" where
  "occurs_any_casing p [] = ci_prefix p []"
| "occurs_any_casing p (c # cs) = (ci_prefix p (c # cs) \<or> occurs_any_casing p cs)"

definition blank :: "string \<Rightarrow> bool" where
  "blank s = list_all isspace s"

section \<open>Chunker\<close>

text \<open>
  \<open>text.split()\<close> with no separator: the maximal runs of non-whitespace characters, in
  order. \<open>cur\<close> holds the current run, reversed.
\<close>

fun split_ws_aux :: "string \<Rightarrow> string \<Rightarrow> string list" where
  "split_ws_aux cur [] = (if cur = [] then [] else [rev cur])"
| "split_ws_aux cur (c # cs) =
     (if isspace c then (if cur = [] then split_ws_aux [] cs else rev cur # split_ws_aux [] cs)
      else split_ws_aux (c # cur) cs)"

definition split_ws :: "string \<Rightarrow> string list" where
  "split_ws text = split_ws_aux [] text"

text \<open>\<open>sep.join(parts)\<close>.\<close>

fun join :: "string \<Rightarrow> string list \<Rightarrow> string" where
  "join sep [] = []"
| "join sep [w] = w"
| "join sep (w # ws) = w @ sep @ join sep ws"

text \<open>
  \<open>xs[i:j]\<close> for integers \<open>i\<close>, \<open>j\<close>: a negative index counts from the end, and both
  are clamped to the list; an empty range gives the empty list.
\<close>

definition slice_index :: "nat \<Rightarrow> int \<Rightarrow> nat" where
  "slice_index n k = (if k < 0 then nat (max 0 (k + int n)) else min (nat k) n)"

definition py_slice :: "'a list \<Rightarrow> int \<Rightarrow> int \<Rightarrow> 'a list" where
  "py_slice xs i j = (let a = slice_index (length xs) i; b = slice_index (length xs) j
                      in take (b - a) (drop a xs))"

text \<open>
  \<open>range(start, stop, step)\<close>: a zero step raises \<open>ValueError\<close>; otherwise the values
  \<open>start, start + step, ...\<close> before \<open>stop\<close> (after it, for a negative step).
\<close>

function range_from :: "int \<Rightarrow> int \<Rightarrow> int \<Rightarrow> int list" where
  "range_from i stop step =
     (if 0 < step \<and> i < stop then i # range_from (i + step) stop step
      else if step < 0 \<and> stop < i then i # range_from (i + step) stop step
      else [])"
  by pat_completeness auto
termination
  by (relation "measure (\<lambda>(i, stop, step). nat (if 0 < step then stop - i else i - stop))") auto

definition py_range :: "int \<Rightarrow> int \<Rightarrow> int \<Rightarrow> py_error + int list" where
  "py_range start stop step = (if step = 0 then Inl ValueError else Inr (range_from start stop step))"

text \<open>The body of \<open>chunk_text\<close>'s loop, over the indices that \<open>range\<close> yields.\<close>

fun chunk_loop :: "string list \<Rightarrow> int \<Rightarrow> int list \<Rightarrow> string list \<Rightarrow> string list" where
  "chunk_loop words chunk_size [] chunks = chunks"
| "chunk_loop words chunk_size (i # rest) chunks =
     (let chunk = join '' '' (py_slice words i (i + chunk_size))
      in chunk_loop words chunk_size rest (if strip chunk \<noteq> [] then chunks @ [chunk] else chunks))"

definition chunk_text :: "string \<Rightarrow> int \<Rightarrow> int \<Rightarrow> py_error + string list" where
  "chunk_text text chunk_size overlap =
     (let words = split_ws text
      in case py_range 0 (int (length words)) (chunk_size - overlap) of
           Inl e \<Rightarrow> Inl e
         | Inr indices \<Rightarrow> Inr (chunk_loop words chunk_size indices []))"

section \<open>Quiz parser\<close>

text \<open>
  \<open>s.split(sep)\<close> and \<open>s.split(sep, 1)\<close> for a separator string: the pieces between
  the occurrences of \<open>sep\<close>, found from the left without overlap. The source only
  passes the literals \<open>'---'\<close>, \<open>'\n'\<close> and \<open>':'\<close>; Python rejects an empty separator,
  which never splits here. \<open>cur\<close> holds the current piece, reversed.
\<close>

function split_aux :: "string \<Rightarrow> string \<Rightarrow> string \<Rightarrow> string list" where
  "split_aux sep cur [] = [rev cur]"
| "split_aux sep cur (c # cs) =
     (if sep \<noteq> [] \<and> prefix sep (c # cs)
      then rev cur # split_aux sep [] (drop (length sep - 1) cs)
      else split_aux sep (c # cur) cs)"
  by pat_completeness auto
termination
  by (relation "measure (\<lambda>(sep, cur, s). length s)") auto

definition split :: "string \<Rightarrow> string \<Rightarrow> string list" where
  "split sep s = split_aux sep [] s"

fun split1_aux :: "string \<Rightarrow> string \<Rightarrow> string \<Rightarrow> string list" where
  "split1_aux sep cur [] = [rev cur]"
| "split1_aux sep cur (c # cs) =
     (if sep \<noteq> [] \<and> prefix sep (c # cs)
      then [rev cur, drop (length sep - 1) cs]
      else split1_aux sep (c # cur) cs)"

definition split1 :: "string \<Rightarrow> string \<Rightarrow> string list" where
  "split1 sep s = split1_aux sep [] s"

text \<open>\<open>xs[n]\<close> for \<open>n \<ge> 0\<close>: \<open>IndexError\<close> out of range.\<close>

definition nth_or_raise :: "'a list \<Rightarrow> nat \<Rightarrow> py_error + 'a" where
  "nth_or_raise xs n = (if n < length xs then Inr (xs ! n) else Inl IndexError)"

text \<open>
  A question is the dictionary that \<open>parse_quiz\<close> builds; \<open>options\<close> is itself a
  dictionary, kept as an association list in insertion order (\<open>AList.update\<close> replaces
  the value of a key already present and appends a new key, as a Python \<open>dict\<close> does).
\<close>

record quiz_question =
  id' :: nat
  question :: string
  options :: "(string \<times> string) list"
  correct :: string
  explanation :: string

definition LETTERS :: "string list" where
  "LETTERS = [''A'', ''B'', ''C'', ''D'']"

text \<open>One iteration of the \<open>for line in lines\<close> loop: the \<open>if\<close>/\<open>elif\<close> chain.\<close>

definition parse_line :: "nat \<Rightarrow> quiz_question \<Rightarrow> string \<Rightarrow> py_error + quiz_question" where
  "parse_line i q line =
     (if prefix ''Q:'' line \<or> prefix (str_nat i @ ''.'') line
         \<or> (question q = [] \<and> CHR ''?'' \<in> set line)
      then Inr (q\<lparr>question := (if CHR '':'' \<in> set line then strip (last (split1 '':'' line))
                                else strip line)\<rparr>)
      else if prefix ''A)'' line
      then Inr (q\<lparr>options := AList.update ''A'' (strip (drop 2 line)) (options q)\<rparr>)
      else if prefix ''B)'' line
      then Inr (q\<lparr>options := AList.update ''B'' (strip (drop 2 line)) (options q)\<rparr>)
      else if prefix ''C)'' line
      then Inr (q\<lparr>options := AList.update ''C'' (strip (drop 2 line)) (options q)\<rparr>)
      else if prefix ''D)'' line
      then Inr (q\<lparr>options := AList.update ''D'' (strip (drop 2 line)) (options q)\<rparr>)
      else if prefix ''Correct:'' line
      then (case nth_or_raise (split '':'' line) 1 of
              Inl e \<Rightarrow> Inl e
            | Inr field \<Rightarrow>
                (case nth_or_raise (upper (strip field)) 0 of
                   Inl e \<Rightarrow> Inl e
                 | Inr c \<Rightarrow> Inr (q\<lparr>correct := [c]\<rparr>)))
      else if prefix ''Explanation:'' line
      then (case nth_or_raise (split1 '':'' line) 1 of
              Inl e \<Rightarrow> Inl e
            | Inr rest \<Rightarrow> Inr (q\<lparr>explanation := strip rest\<rparr>))
      else Inr q)"

fun parse_lines :: "nat \<Rightarrow> quiz_question \<Rightarrow> string list \<Rightarrow> py_error + quiz_question" where
  "parse_lines i q [] = Inr q"
| "parse_lines i q (line # rest) =
     (case parse_line i q line of Inl e \<Rightarrow> Inl e | Inr q' \<Rightarrow> parse_lines i q' rest)"

text \<open>The non-empty stripped lines of a section.\<close>

definition section_lines :: "string \<Rightarrow> string list" where
  "section_lines section =
     filter (\<lambda>l. l \<noteq> []) (map strip (split [CHR 0x0A] (strip section)))"

text \<open>The validation after the line loop: the question to append, if any.\<close>

definition validated :: "quiz_question \<Rightarrow> quiz_question option" where
  "validated q =
     (if question q \<noteq> [] \<and> options q \<noteq> [] \<and> correct q \<in> set LETTERS
      then (let opts = filter (\<lambda>(k, v). k \<in> set LETTERS) (options q)
            in if length opts = 4 then Some (q\<lparr>options := opts\<rparr>) else None)
      else None)"

text \<open>
  The body of the \<open>for i, section in enumerate(...)\<close> loop: \<open>Inr None\<close> when the section
  is skipped or fails the validation, \<open>Inl\<close> when a line raises.
\<close>

definition parse_section :: "nat \<Rightarrow> string \<Rightarrow> py_error + quiz_question option" where
  "parse_section i section =
     (let lines = section_lines section
      in if length lines < 6 then Inr None
         else (case parse_lines i \<lparr>id' = i, question = [], options = [], correct = [],
                                     explanation = []\<rparr> lines of
                 Inl e \<Rightarrow> Inl e
               | Inr q \<Rightarrow> Inr (validated q)))"

fun parse_sections :: "nat \<Rightarrow> string list \<Rightarrow> quiz_question list \<Rightarrow> py_error + quiz_question list" where
  "parse_sections i [] questions = Inr questions"
| "parse_sections i (section # rest) questions =
     (case parse_section i section of
        Inl e \<Rightarrow> Inl e
      | Inr None \<Rightarrow> parse_sections (Suc i) rest questions
      | Inr (Some q) \<Rightarrow> parse_sections (Suc i) rest (questions @ [q]))"

definition sections_of :: "string \<Rightarrow> string list" where
  "sections_of quiz_text = filter (\<lambda>s. strip s \<noteq> []) (split ''---'' quiz_text)"

definition parse_quiz :: "string \<Rightarrow> py_error + quiz_question list" where
  "parse_quiz quiz_text = parse_sections 1 (take 3 (sections_of quiz_text)) []"



definition kept :: "nat \<Rightarrow> string \<Rightarrow> quiz_question list" where
  "kept i section = (case parse_section i section of Inr (Some q) \<Rightarrow> [q] | _ \<Rightarrow> [])"


section \<open>Quiz generation\<close>

text \<open>
  \<open>re.sub(r'^\*\*[^*]+\*\*:?\s*', '', v)\<close>: a leading heading in double asterisks, an
  optional colon and the whitespace after it are removed. The pattern is anchored at the
  start, so it matches at most once; the run \<open>[^*]+\<close> ends at the first asterisk.
\<close>

definition strip_bold_heading :: "string \<Rightarrow> string" where
  "strip_bold_heading v =
     (if prefix ''**'' v
      then (let body = takeWhile (\<lambda>c. c \<noteq> CHR ''*'') (drop 2 v);
                after = dropWhile (\<lambda>c. c \<noteq> CHR ''*'') (drop 2 v)
            in if body \<noteq> [] \<and> prefix ''**'' after
               then (let r = drop 2 after
                     in dropWhile isspace (if prefix '':'' r then drop 1 r else r))
               else v)
      else v)"

text \<open>
  \<open>if marker in expl: expl = expl.split(marker)[0].strip()\<close>; \<open>split\<close> never returns
  the empty list.
\<close>

definition cut_at :: "string \<Rightarrow> string \<Rightarrow> string" where
  "cut_at marker expl = (if contains marker expl then strip (hd (split marker expl)) else expl)"

definition clean_question_with_context :: "quiz_question \<Rightarrow> string \<Rightarrow> quiz_question" where
  "clean_question_with_context q context_text =
     q\<lparr>options := map (\<lambda>(k, v). (k, strip (strip_bold_heading v))) (options q),
       explanation := cut_at ''Referencing:''
                        (cut_at ''Context reference:'' (strip (explanation q)))\<rparr>"

text \<open>
  The prompt of \<open>generate_quiz\<close>; \<open>now\<close> is the text of \<open>time.time()\<close> at the moment the
  prompt is built.
\<close>

definition quiz_prompt :: "string \<Rightarrow> string" where
  "quiz_prompt now = join [CHR 0x0A]
     [''Generate EXACTLY 3 multiple-choice questions based ONLY on the provided summary content. [Request ID: '' @ now @ '']'',
      [],
      ''CRITICAL RULES:'',
      ''1) You MUST generate 3 complete questions - not 1, not 2, but 3 questions.'',
      ''2) Each question MUST test understanding of specific facts or concepts from the summary.'',
      ''3) Each option (A, B, C, D) MUST be a complete factual statement using ONLY terms/concepts from the summary.'',
      ''4) Three options should be plausible but factually incorrect (misstate a detail, reverse a relationship, or claim something unsupported).'',
      ''5) DO NOT use meta descriptions like '' @ [CHR 0x22] @ ''a detail not mentioned'' @ [CHR 0x22] @ '' or '' @ [CHR 0x22] @ ''an overgeneralization'' @ [CHR 0x22] @ '' - use ACTUAL CONTENT from the summary.'',
      ''6) Explanations should reference specific facts from the summary that support the correct answer.'',
      ''7) NO author names, citations, journal titles, years, or bibliography references.'',
      ''8) You MUST separate each question with exactly three dashes: ---'',
      ''9) VARY the position of the correct answer - DO NOT always make it option A or B. Mix up which option (A, B, C, or D) is correct across different questions.'',
      [],
      ''FORMAT (generate this 3 times, once for each question):'',
      ''Q: [question]'',
      ''A) [complete factual statement]'',
      ''B) [complete factual statement]'',
      ''C) [complete factual statement]'',
      ''D) [complete factual statement]'',
      ''Correct: [A|B|C|D]'',
      ''Explanation: [why correct option is right based on summary]'',
      ''---'',
      [],
      ''Remember: Generate all 3 questions in a single response, separated by ---'']"

definition retry_prompt :: "nat \<Rightarrow> string \<Rightarrow> string" where
  "retry_prompt produced prompt =
     ''CRITICAL: You must generate EXACTLY 3 complete questions. '' @
     ''Previous attempt only produced '' @ str_nat produced @ ''.'' @
     [CHR 0x0A, CHR 0x0A] @ prompt"

definition not_enough_message :: string where
  "not_enough_message =
     ''Not enough content to generate quiz. Please upload a more detailed document.''"

definition no_valid_message :: string where
  "no_valid_message =
     ''Could not generate valid questions. The content may be too short or contain '' @
     ''mainly citations. Please try a different document.''"

text \<open>
  What the request returns: the questions (status 200), an error message (status 400), or
  the exception caught by the handler's \<open>except Exception\<close> (status 500).
\<close>

datatype quiz_response = Ok200 "quiz_question list" | Error400 string | Error500 py_error

text \<open>
  The language-model service is a parameter: \<open>ollama n prompt context\<close> is the text that
  \<open>call_ollama(prompt, context)\<close> returns when it is the call number \<open>n\<close> of the request
  (counted from 0), or the exception it raises. A generation step is
  \<open>quiz_text = call_ollama(prompt, context); questions = parse_quiz(quiz_text)\<close>; the
  steps of a request are recorded as the list of their \<open>(prompt, context)\<close> pairs.
\<close>

type_synonym service = "nat \<Rightarrow> string \<Rightarrow> string \<Rightarrow> py_error + string"

definition ask :: "service \<Rightarrow> nat \<Rightarrow> string \<Rightarrow> string \<Rightarrow> py_error + quiz_question list" where
  "ask ollama n prompt context =
     (case ollama n prompt context of Inl e \<Rightarrow> Inl e | Inr quiz_text \<Rightarrow> parse_quiz quiz_text)"

definition attempt ::
  "service \<Rightarrow> (string \<times> string) list \<Rightarrow> string \<Rightarrow> string \<Rightarrow>
     (string \<times> string) list \<times> (py_error + quiz_question list)" where
  "attempt ollama calls prompt context =
     (calls @ [(prompt, context)], ask ollama (length calls) prompt context)"

text \<open>\<open>for i, q in enumerate(questions, 1): q['id'] = i\<close>.\<close>

definition renumber :: "quiz_question list \<Rightarrow> quiz_question list" where
  "renumber questions =
     map (\<lambda>(i, q). q\<lparr>id' := i\<rparr>) (zip [1..<Suc (length questions)] questions)"

text \<open>
  \<open>generate_quiz\<close> from the point where \<open>filtered_sentences\<close> has been computed (the
  session check and the choice of the summary come before). \<open>shuffle\<close> is the outcome of
  \<open>random.shuffle\<close>, which reorders \<open>filtered_sentences\<close> in place: every later use of
  the list sees the shuffled order. The result is the list of generation steps made and
  the response.
\<close>

definition generate_quiz ::
  "service \<Rightarrow> (string list \<Rightarrow> string list) \<Rightarrow> string \<Rightarrow> string list \<Rightarrow>
     (string \<times> string) list \<times> quiz_response" where
  "generate_quiz ollama shuffle now filtered =
     (if length filtered < 3 then ([], Error400 not_enough_message)
      else
        (let filtered_sentences = shuffle filtered;
             quiz_context = join [CHR 0x0A] filtered_sentences;
             prompt = quiz_prompt now;
             (calls1, r1) = attempt ollama [] prompt quiz_context
         in case r1 of
              Inl e \<Rightarrow> (calls1, Error500 e)
            | Inr questions1 \<Rightarrow>
                (let (calls2, r2) =
                       (if length questions1 < 3
                        then attempt ollama calls1 (retry_prompt (length questions1) prompt)
                               quiz_context
                        else (calls1, Inr questions1))
                 in case r2 of
                      Inl e \<Rightarrow> (calls2, Error500 e)
                    | Inr questions2 \<Rightarrow>
                        (let (calls3, r3) =
                               (if length questions2 < 3 \<and> length filtered_sentences > 8
                                then attempt ollama calls2 prompt
                                       (join [CHR 0x0A] (take 15 filtered_sentences))
                                else (calls2, Inr questions2))
                         in case r3 of
                              Inl e \<Rightarrow> (calls3, Error500 e)
                            | Inr questions3 \<Rightarrow>
                                (if length questions3 = 0
                                 then (calls3, Error400 no_valid_message)
                                 else (calls3,
                                       Ok200 (renumber
                                         (map (\<lambda>q. clean_question_with_context q quiz_context)
                                            (take 3 questions3)))))))))"

text \<open>
  A sample service for the concrete runs below: it answers every call with two complete
  questions.
\<close>

definition two_question_reply :: string where
  "two_question_reply = join ''---''
     [join [CHR 0x0A] [''Q: What is 2+2?'', ''A) 3'', ''B) 4'', ''C) 5'', ''D) 6'',
                       ''Correct: B'', ''Explanation: sum''],
      join [CHR 0x0A] [''Q: What is 3+3?'', ''A) 6'', ''B) 7'', ''C) 8'', ''D) 9'',
                       ''Correct: A'', ''Explanation: sum Referencing: line 2'']]"

definition two_question_service :: service where
  "two_question_service n prompt context = Inr two_question_reply"

section \<open>Properties of the input guard\<close>

lemma upper_letters_distinct: "distinct upper_letters"
  by (simp add: upper_letters_def)

lemma letters_length: "length upper_letters = length lower_letters"
  by (simp add: upper_letters_def lower_letters_def)

lemma lower_not_upper: "list_all (\<lambda>d. d \<notin> set upper_letters) lower_letters"
  by code_simp

lemma letters_not_space: "list_all (\<lambda>d. \<not> isspace d) (upper_letters @ lower_letters)"
  by code_simp

lemma lower_char_upper:
  assumes "(c, d) \<in> set (zip upper_letters lower_letters)"
  shows "lower_char c = d"
proof -
  have "distinct (map fst (zip upper_letters lower_letters))"
    using upper_letters_distinct letters_length by simp
  then have "map_of (zip upper_letters lower_letters) c = Some d"
    using assms by (rule map_of_is_SomeI)
  then show ?thesis by (simp add: lower_char_def)
qed

lemma lower_char_lower:
  assumes "d \<in> set lower_letters"
  shows "lower_char d = d"
proof -
  from assms lower_not_upper have "d \<notin> set upper_letters"
    by (simp add: list_all_iff)
  then have "d \<notin> fst ` set (zip upper_letters lower_letters)"
    by (auto dest: set_zip_leftD)
  then have "map_of (zip upper_letters lower_letters) d = None"
    by (simp add: map_of_eq_None_iff)
  then show ?thesis by (simp add: lower_char_def)
qed

lemma lower_char_zip:
  assumes "(c, d) \<in> set (zip upper_letters lower_letters)"
  shows "lower_char c = lower_char d"
proof -
  from assms have "d \<in> set lower_letters" by (rule set_zip_rightD)
  then have "lower_char d = d" by (rule lower_char_lower)
  with lower_char_upper [OF assms] show ?thesis by simp
qed

lemma same_letter_lower: "same_letter c d \<Longrightarrow> lower_char c = lower_char d"
  unfolding same_letter_def using lower_char_zip [of c d] lower_char_zip [of d c] by auto

lemma patterns_lower: "p \<in> set PROMPT_INJECTION_PATTERNS \<Longrightarrow> lower p = p"
proof -
  have "list_all (\<lambda>p. lower p = p) PROMPT_INJECTION_PATTERNS" by code_simp
  then show "p \<in> set PROMPT_INJECTION_PATTERNS \<Longrightarrow> lower p = p"
    by (simp add: list_all_iff)
qed

lemma patterns_not_blank: "p \<in> set PROMPT_INJECTION_PATTERNS \<Longrightarrow> \<not> blank p"
proof -
  have "list_all (\<lambda>p. \<not> blank p) PROMPT_INJECTION_PATTERNS" by code_simp
  then show "p \<in> set PROMPT_INJECTION_PATTERNS \<Longrightarrow> \<not> blank p"
    by (simp add: list_all_iff)
qed

lemma isspace_lower: "isspace (lower_char c) \<longleftrightarrow> isspace c"
proof (cases "map_of (zip upper_letters lower_letters) c")
  case None
  then show ?thesis by (simp add: lower_char_def)
next
  case (Some d)
  then have cd: "(c, d) \<in> set (zip upper_letters lower_letters)" by (rule map_of_SomeD)
  then have "c \<in> set upper_letters" and "d \<in> set lower_letters"
    by (auto dest: set_zip_leftD set_zip_rightD)
  with letters_not_space have "\<not> isspace c \<and> \<not> isspace d"
    by (auto simp: list_all_iff)
  with Some show ?thesis by (simp add: lower_char_def)
qed

lemma all_dropWhile: "(\<forall>x\<in>set (dropWhile P s). P x) \<longleftrightarrow> (\<forall>x\<in>set s. P x)"
  by (induction s) auto

lemma strip_Nil_iff: "strip s = [] \<longleftrightarrow> blank s"
  unfolding strip_def blank_def by (simp add: all_dropWhile list_all_iff)

lemma contains_sublist: "contains p s \<longleftrightarrow> sublist p s"
  by (induction s) (simp_all add: sublist_Cons_right)

lemma lower_char_same: "same_letter c (lower_char c)"
  unfolding same_letter_def lower_char_def
  by (auto split: option.splits dest: map_of_SomeD)

lemma ci_prefix_lower: "lower p = p \<Longrightarrow> ci_prefix p s \<longleftrightarrow> prefix p (lower s)"
proof (induction p s rule: ci_prefix.induct)
  case (1 s)
  show ?case by simp
next
  case (2 d p)
  show ?case by (simp add: lower_def)
next
  case (3 d p c s)
  from "3.prems" have d: "lower_char d = d" and p: "lower p = p" by (simp_all add: lower_def)
  have "same_letter c d \<longleftrightarrow> d = lower_char c"
    using same_letter_lower [of c d] lower_char_same [of c] d by auto
  with "3.IH" [OF p] show ?case by (auto simp: lower_def)
qed

lemma occurs_any_casing_lower:
  "lower p = p \<Longrightarrow> occurs_any_casing p s \<longleftrightarrow> contains p (lower s)"
proof (induction s)
  case Nil
  then show ?case by (cases p) (simp_all add: lower_def)
next
  case (Cons c cs)
  have "ci_prefix p (c # cs) \<longleftrightarrow> prefix p (lower (c # cs))"
    using Cons.prems by (rule ci_prefix_lower)
  with Cons show ?case by (simp add: lower_def)
qed

lemma any_pattern_in_iff: "any_pattern_in ps t \<longleftrightarrow> (\<exists>p\<in>set ps. contains p t)"
  by (induction ps) auto

lemma check_prompt_injection_iff:
  "check_prompt_injection text \<longleftrightarrow> (\<exists>p\<in>set PROMPT_INJECTION_PATTERNS. occurs_any_casing p text)"
  unfolding check_prompt_injection_def any_pattern_in_iff
  by (auto simp: occurs_any_casing_lower patterns_lower)

lemma blank_lower: "blank (lower s) \<longleftrightarrow> blank s"
  by (induction s) (simp_all add: blank_def lower_def isspace_lower)

lemma sublist_blank: "sublist p s \<Longrightarrow> blank s \<Longrightarrow> blank p"
  by (auto simp: sublist_def blank_def)

lemma injection_not_blank: "check_prompt_injection text \<Longrightarrow> \<not> blank text"
proof
  assume "check_prompt_injection text" and b: "blank text"
  then obtain p where p: "p \<in> set PROMPT_INJECTION_PATTERNS" and "contains p (lower text)"
    unfolding check_prompt_injection_def any_pattern_in_iff by blast
  then have "sublist p (lower text)" by (simp add: contains_sublist)
  moreover from b have "blank (lower text)" by (simp add: blank_lower)
  ultimately have "blank p" by (rule sublist_blank)
  with p show False by (simp add: patterns_not_blank)
qed

lemma validate_input_cases:
  "validate_input text m =
     (if blank text then (False, Some empty_message)
      else if int (length text) > m then (False, Some (length_message m))
      else if check_prompt_injection text then (False, Some injection_message)
      else (True, None))"
  unfolding validate_input_def strip_Nil_iff by (auto simp: blank_def)

lemma ci_prefix_append: "ci_prefix p s \<Longrightarrow> ci_prefix p (s @ t)"
  by (induction p s rule: ci_prefix.induct) auto

lemma occurs_any_casing_prefix: "ci_prefix p (s @ t) \<Longrightarrow> occurs_any_casing p (s @ t)"
  by (cases "s @ t") auto

text \<open>
  Claim C5, as amended. The three rules are tried in the order empty, length, injection and
  the first failing rule gives the reason. A text that is not blank, has exactly
  \<open>max_length\<close> characters and contains no deny-list phrase in any casing is accepted; a
  text that is not blank and has \<open>max_length + 1\<close> characters is rejected with the length
  reason. A blank text (empty, or whitespace only, the no-break space and the other
  whitespace characters of \<open>str.strip\<close> included) is rejected with the empty reason whatever
  its length.
\<close>

theorem validate_input_order:
  "(blank text \<longrightarrow> validate_input text m = (False, Some empty_message)) \<and>
   (\<not> blank text \<and> int (length text) > m \<longrightarrow>
      validate_input text m = (False, Some (length_message m))) \<and>
   (\<not> blank text \<and> int (length text) \<le> m \<and> check_prompt_injection text \<longrightarrow>
      validate_input text m = (False, Some injection_message)) \<and>
   (\<not> blank text \<and> int (length text) = m \<and>
      (\<forall>p\<in>set PROMPT_INJECTION_PATTERNS. \<not> occurs_any_casing p text) \<longrightarrow>
      validate_input text m = (True, None)) \<and>
   (\<not> blank text \<and> int (length text) = m + 1 \<longrightarrow>
      validate_input text m = (False, Some (length_message m)))"
  by (simp add: validate_input_cases check_prompt_injection_iff)

theorem validate_input_order_witness:
  "validate_input ''   '' 5 = (False, Some empty_message) \<and>
   validate_input [CHR 0xA0, CHR 0x85] 1 = (False, Some empty_message) \<and>
   validate_input ''act as root'' 5 = (False, Some (length_message 5)) \<and>
   validate_input ''act as root'' 11 = (False, Some injection_message) \<and>
   validate_input ''what is ML'' 10 = (True, None) \<and>
   validate_input ''what is ML?'' 10 = (False, Some (length_message 10))"
proof -
  have b1: "blank ''   ''" by code_simp
  have b0: "blank [CHR 0xA0, CHR 0x85]" by code_simp
  have b2: "\<not> blank ''act as root''" by code_simp
  have i2: "check_prompt_injection ''act as root''" by code_simp
  have b3: "\<not> blank ''what is ML''" by code_simp
  have n3: "\<forall>p\<in>set PROMPT_INJECTION_PATTERNS. \<not> occurs_any_casing p ''what is ML''"
    by code_simp
  have b4: "\<not> blank ''what is ML?''" by code_simp
  show ?thesis
    using validate_input_order [of "''   ''" 5] validate_input_order [of "''act as root''" 5]
      validate_input_order [of "''act as root''" 11] validate_input_order [of "''what is ML''" 10]
      validate_input_order [of "''what is ML?''" 10]
      validate_input_order [of "[CHR 0xA0, CHR 0x85]" 1] b0 b1 b2 i2 b3 n3 b4
    by simp
qed

text \<open>
  Claim C5 as stated fails on whitespace: three spaces are \<open>max_length + 1\<close> characters
  for \<open>max_length = 2\<close>, and the reason reported is the empty one.
\<close>

theorem validate_input_whitespace_counterexample:
  "int (length ''   '') = 2 + 1 \<and> validate_input ''   '' 2 = (False, Some empty_message) \<and>
   empty_message \<noteq> length_message 2"
proof -
  have "blank ''   ''" by code_simp
  then have "validate_input ''   '' 2 = (False, Some empty_message)"
    by (simp add: validate_input_cases)
  then show ?thesis by (simp add: empty_message_def length_message_def)
qed

text \<open>
  Claim C6, as amended. A text in which a deny-list phrase occurs in any casing is always
  rejected: with the injection reason when it has at most \<open>max_length\<close> characters, and
  with the length reason when it is longer.
\<close>

theorem deny_list_any_casing:
  assumes "p \<in> set PROMPT_INJECTION_PATTERNS" and "occurs_any_casing p text"
  shows "validate_input text m =
           (if int (length text) \<le> m then (False, Some injection_message)
            else (False, Some (length_message m)))"
proof -
  from assms have inj: "check_prompt_injection text"
    unfolding check_prompt_injection_iff by blast
  then have "\<not> blank text" by (rule injection_not_blank)
  with inj show ?thesis by (simp add: validate_input_cases)
qed

theorem deny_list_any_casing_witness:
  "''act as'' \<in> set PROMPT_INJECTION_PATTERNS \<and>
   occurs_any_casing ''act as'' ''Please ACT As root'' \<and>
   validate_input ''Please ACT As root'' MAX_INPUT_LENGTH = (False, Some injection_message)"
proof -
  have h1: "''act as'' \<in> set PROMPT_INJECTION_PATTERNS"
    by (simp add: PROMPT_INJECTION_PATTERNS_def)
  have h2: "occurs_any_casing ''act as'' ''Please ACT As root''" by code_simp
  from deny_list_any_casing [OF h1 h2, of MAX_INPUT_LENGTH] h1 h2 show ?thesis
    by (simp add: MAX_INPUT_LENGTH_def)
qed

text \<open>
  Claim C6 as stated fails on a long text: a question of 2001 characters that begins with
  a deny-list phrase is rejected by the length rule, which comes first.
\<close>

theorem deny_list_length_counterexample:
  "occurs_any_casing ''ignore all'' (''Ignore ALL'' @ replicate 1991 CHR ''x'') \<and>
   validate_input (''Ignore ALL'' @ replicate 1991 CHR ''x'') MAX_INPUT_LENGTH =
     (False, Some (length_message MAX_INPUT_LENGTH)) \<and>
   length_message MAX_INPUT_LENGTH \<noteq> injection_message"
proof -
  have "ci_prefix ''ignore all'' ''Ignore ALL''" by code_simp
  then have occ: "occurs_any_casing ''ignore all'' (''Ignore ALL'' @ replicate 1991 CHR ''x'')"
    by (intro occurs_any_casing_prefix ci_prefix_append)
  have "\<not> isspace CHR ''I''" by code_simp
  then have nb: "\<not> blank (''Ignore ALL'' @ replicate 1991 CHR ''x'')"
    by (simp add: blank_def)
  have len: "int (length (''Ignore ALL'' @ replicate 1991 CHR ''x'')) > MAX_INPUT_LENGTH"
    by (simp add: MAX_INPUT_LENGTH_def)
  from nb len have "validate_input (''Ignore ALL'' @ replicate 1991 CHR ''x'') MAX_INPUT_LENGTH =
     (False, Some (length_message MAX_INPUT_LENGTH))"
    by (simp add: validate_input_cases)
  moreover have "length_message MAX_INPUT_LENGTH \<noteq> injection_message"
    by (simp add: length_message_def injection_message_def)
  ultimately show ?thesis using occ by simp
qed

section \<open>Properties of the chunker\<close>

declare range_from.simps [simp del]

lemma split_ws_aux_words:
  "\<forall>c\<in>set cur. \<not> isspace c \<Longrightarrow> w \<in> set (split_ws_aux cur s) \<Longrightarrow>
     w \<noteq> [] \<and> (\<forall>c\<in>set w. \<not> isspace c)"
proof (induction s arbitrary: cur)
  case Nil
  then show ?case by (auto split: if_splits)
next
  case (Cons a s)
  show ?case
  proof (cases "isspace a")
    case True
    with Cons.prems(2) have "w = rev cur \<and> cur \<noteq> [] \<or> w \<in> set (split_ws_aux [] s)"
      by (auto split: if_splits)
    then show ?thesis
    proof
      assume "w = rev cur \<and> cur \<noteq> []"
      with Cons.prems(1) show ?thesis by simp
    next
      assume "w \<in> set (split_ws_aux [] s)"
      with Cons.IH [of "[]"] show ?thesis by simp
    qed
  next
    case False
    with Cons.prems(2) have "w \<in> set (split_ws_aux (a # cur) s)" by simp
    moreover from False Cons.prems(1) have "\<forall>c\<in>set (a # cur). \<not> isspace c" by simp
    ultimately show ?thesis by (rule Cons.IH [rotated])
  qed
qed

lemma split_ws_words:
  assumes "w \<in> set (split_ws text)"
  shows "w \<noteq> [] \<and> (\<forall>c\<in>set w. \<not> isspace c)"
proof -
  have "\<forall>c\<in>set []. \<not> isspace c" by simp
  moreover from assms have "w \<in> set (split_ws_aux [] text)" by (simp add: split_ws_def)
  ultimately show ?thesis by (rule split_ws_aux_words)
qed

lemma join_Cons: "join sep (w # ws) = w @ (if ws = [] then [] else sep @ join sep ws)"
  by (cases ws) simp_all

lemma join_not_blank:
  assumes "ws \<noteq> []" and "\<forall>w\<in>set ws. w \<noteq> [] \<and> (\<forall>c\<in>set w. \<not> isspace c)"
  shows "\<not> blank (join sep ws)"
proof -
  from assms(1) obtain w rest where ws: "ws = w # rest" by (cases ws) auto
  with assms(2) obtain c w' where w: "w = c # w'" and c: "\<not> isspace c"
    by (cases w) auto
  show ?thesis unfolding ws join_Cons w using c by (simp add: blank_def)
qed

lemma range_from_set:
  "0 < step \<Longrightarrow> j \<in> set (range_from i stop step) \<Longrightarrow> i \<le> j \<and> j < stop"
proof (induction i stop step rule: range_from.induct)
  case (1 i stop step)
  show ?case
  proof (cases "i < stop")
    case True
    with "1.prems" have "j = i \<or> j \<in> set (range_from (i + step) stop step)"
      by (subst (asm) range_from.simps) simp
    with "1.IH"(1) "1.prems"(1) True show ?thesis by auto
  next
    case False
    with "1.prems" show ?thesis by (subst (asm) range_from.simps) simp
  qed
qed

lemma range_from_length:
  "0 < step \<Longrightarrow> length (range_from i stop step) = nat ((stop - i + step - 1) div step)"
proof (induction i stop step rule: range_from.induct)
  case (1 i stop step)
  show ?case
  proof (cases "i < stop")
    case True
    have "stop - i + step - 1 = (stop - (i + step) + step - 1) + 1 * step" by simp
    then have "(stop - i + step - 1) div step = (stop - (i + step) + step - 1) div step + 1"
      using "1.prems" by (metis div_add_self2 less_irrefl mult_1)
    moreover have "0 \<le> (stop - (i + step) + step - 1) div step"
      using True "1.prems" by (simp add: pos_imp_zdiv_nonneg_iff)
    moreover have "length (range_from i stop step) =
        Suc (length (range_from (i + step) stop step))"
      using True "1.prems" by (subst range_from.simps) simp
    ultimately show ?thesis using "1.IH"(1) True "1.prems" by simp
  next
    case False
    then have "stop - i + step - 1 \<le> step - 1" by simp
    then have "(stop - i + step - 1) div step \<le> (step - 1) div step"
      using "1.prems" by (rule zdiv_mono1)
    then have "(stop - i + step - 1) div step \<le> 0"
      using "1.prems" by simp
    moreover have "range_from i stop step = []"
      using False "1.prems" by (subst range_from.simps) simp
    ultimately show ?thesis by simp
  qed
qed

lemma range_from_map:
  "0 < step \<Longrightarrow>
     range_from i stop step =
       map (\<lambda>j. i + int j * step) [0..<nat ((stop - i + step - 1) div step)]"
proof (induction i stop step rule: range_from.induct)
  case (1 i stop step)
  show ?case
  proof (cases "i < stop")
    case True
    have "stop - i + step - 1 = (stop - (i + step) + step - 1) + 1 * step" by simp
    then have d: "(stop - i + step - 1) div step = (stop - (i + step) + step - 1) div step + 1"
      using "1.prems" by (metis div_add_self2 less_irrefl mult_1)
    have "0 \<le> (stop - (i + step) + step - 1) div step"
      using True "1.prems" by (simp add: pos_imp_zdiv_nonneg_iff)
    then have n: "nat ((stop - i + step - 1) div step) =
        Suc (nat ((stop - (i + step) + step - 1) div step))"
      unfolding d by (simp add: nat_add_distrib)
    have "range_from i stop step = i # range_from (i + step) stop step"
      using True "1.prems" by (subst range_from.simps) simp
    also have "range_from (i + step) stop step =
        map (\<lambda>j. i + step + int j * step) [0..<nat ((stop - (i + step) + step - 1) div step)]"
      using "1.IH"(1) True "1.prems" by simp
    finally show ?thesis
      unfolding n map_upt_Suc by (simp add: algebra_simps)
  next
    case False
    then have "stop - i + step - 1 \<le> step - 1" by simp
    then have "(stop - i + step - 1) div step \<le> (step - 1) div step"
      using "1.prems" by (rule zdiv_mono1)
    then have "(stop - i + step - 1) div step \<le> 0"
      using "1.prems" by simp
    moreover have "range_from i stop step = []"
      using False "1.prems" by (subst range_from.simps) simp
    ultimately show ?thesis by simp
  qed
qed

lemma range_from_nonpositive: "step < 0 \<Longrightarrow> 0 \<le> stop \<Longrightarrow> range_from 0 stop step = []"
  by (subst range_from.simps) simp

lemma ceiling_div:
  assumes b: "0 < (b::int)"
  shows "\<lceil>real_of_int a / real_of_int b\<rceil> = (a + b - 1) div b"
proof (rule ceiling_unique)
  define q where "q = (a + b - 1) div b"
  define r where "r = (a + b - 1) mod b"
  have eq: "a + b - 1 = q * b + r" by (simp add: q_def r_def)
  have r: "0 \<le> r" "r < b" using b by (simp_all add: r_def)
  have lo: "(q - 1) * b < a" using eq r by (simp add: algebra_simps)
  have hi: "a \<le> q * b" using eq r by (simp add: algebra_simps)
  from lo have "real_of_int ((q - 1) * b) < real_of_int a" by (simp only: of_int_less_iff)
  then show "real_of_int ((a + b - 1) div b) - 1 < real_of_int a / real_of_int b"
    using b by (simp add: q_def [symmetric] pos_less_divide_eq)
  from hi have "real_of_int a \<le> real_of_int (q * b)" by (simp only: of_int_le_iff)
  then show "real_of_int a / real_of_int b \<le> real_of_int ((a + b - 1) div b)"
    using b by (simp add: q_def [symmetric] pos_divide_le_eq)
qed

lemma py_slice_window:
  assumes "0 \<le> i" and "0 < csize"
  shows "py_slice ws i (i + csize) = take (nat csize) (drop (nat i) ws)"
proof -
  have a: "slice_index (length ws) i = min (nat i) (length ws)"
    using assms by (simp add: slice_index_def)
  have b: "slice_index (length ws) (i + csize) = min (nat i + nat csize) (length ws)"
    using assms by (simp add: slice_index_def nat_add_distrib)
  show ?thesis
  proof (cases "nat i \<le> length ws")
    case True
    then have "take (min (nat i + nat csize) (length ws) - nat i) (drop (nat i) ws) =
        take (nat csize) (drop (nat i) ws)"
      by (simp add: min_def)
    with True show ?thesis by (simp add: py_slice_def a b min_def)
  next
    case False
    then show ?thesis by (simp add: py_slice_def a b)
  qed
qed

lemma chunk_loop_filter:
  "chunk_loop words chunk_size indices chunks =
     chunks @ filter (\<lambda>chunk. strip chunk \<noteq> [])
       (map (\<lambda>i. join '' '' (py_slice words i (i + chunk_size))) indices)"
  by (induction indices arbitrary: chunks) (simp_all add: Let_def)

lemma window_not_blank:
  assumes words: "\<forall>w\<in>set words. w \<noteq> [] \<and> (\<forall>c\<in>set w. \<not> isspace c)"
    and i: "0 \<le> i" "i < int (length words)" and size: "0 < csize"
  shows "strip (join '' '' (py_slice words i (i + csize))) \<noteq> []"
proof -
  let ?win = "take (nat csize) (drop (nat i) words)"
  have "?win \<noteq> []" using i size by simp
  moreover have "set ?win \<subseteq> set words"
    by (meson set_take_subset set_drop_subset subset_trans)
  ultimately have "\<not> blank (join '' '' ?win)"
    using words by (intro join_not_blank) auto
  then show ?thesis using i size by (simp add: py_slice_window strip_Nil_iff)
qed

lemma chunk_loop_all:
  assumes words: "\<forall>w\<in>set words. w \<noteq> [] \<and> (\<forall>c\<in>set w. \<not> isspace c)"
    and indices: "\<forall>i\<in>set indices. 0 \<le> i \<and> i < int (length words)" and size: "0 < csize"
  shows "chunk_loop words csize indices [] =
           map (\<lambda>i. join '' '' (py_slice words i (i + csize))) indices"
proof -
  have "\<forall>c\<in>set (map (\<lambda>i. join '' '' (py_slice words i (i + csize))) indices). strip c \<noteq> []"
    using window_not_blank [OF words _ _ size] indices by auto
  then show ?thesis by (simp add: chunk_loop_filter)
qed

lemma chunk_text_positive_stride:
  assumes "0 \<le> overlap" and "overlap < chunk_size"
  shows "chunk_text text chunk_size overlap =
     Inr (map (\<lambda>i. join '' '' (py_slice (split_ws text) i (i + chunk_size)))
            (range_from 0 (int (length (split_ws text))) (chunk_size - overlap)))"
proof -
  let ?words = "split_ws text"
  let ?indices = "range_from 0 (int (length ?words)) (chunk_size - overlap)"
  have step: "0 < chunk_size - overlap" and size: "0 < chunk_size" using assms by simp_all
  have words: "\<forall>w\<in>set ?words. w \<noteq> [] \<and> (\<forall>c\<in>set w. \<not> isspace c)"
    using split_ws_words by blast
  have "\<forall>i\<in>set ?indices. 0 \<le> i \<and> i < int (length ?words)"
    using range_from_set [OF step] by blast
  from chunk_loop_all [OF words this size] step show ?thesis
    by (simp add: chunk_text_def py_range_def Let_def)
qed

text \<open>
  Claim C7, as amended. With \<open>chunk_size = overlap\<close> the call fails with the
  \<open>ValueError\<close> that \<open>range\<close> raises for a zero step; with \<open>chunk_size < overlap\<close> it
  returns the empty list of chunks and no error, whatever the text.
\<close>

theorem chunk_text_nonpositive_stride:
  "(chunk_size = overlap \<longrightarrow> chunk_text text chunk_size overlap = Inl ValueError) \<and>
   (chunk_size < overlap \<longrightarrow> chunk_text text chunk_size overlap = Inr [])"
  by (simp add: chunk_text_def py_range_def range_from_nonpositive)

theorem chunk_text_nonpositive_stride_witness:
  "chunk_text ''a b c'' 2 2 = Inl ValueError \<and> chunk_text ''a b c'' 1 2 = Inr []"
  using chunk_text_nonpositive_stride [of 2 2 "''a b c''"]
    chunk_text_nonpositive_stride [of 1 2 "''a b c''"]
  by simp

text \<open>
  Claim C7 as stated fails when \<open>chunk_size < overlap\<close>: the three-word text with size 1
  and overlap 2 is accepted and gives no chunk at all.
\<close>

theorem chunk_text_silent_empty_counterexample:
  "(1::int) \<le> 2 \<and> chunk_text ''a b c'' 1 2 = Inr []"
  by code_simp

text \<open>
  Claim C8. A text of \<open>W \<ge> 1\<close> words, chunked with \<open>chunk_size > overlap \<ge> 0\<close>, gives
  exactly \<open>\<lceil>W / (chunk_size - overlap)\<rceil>\<close> chunks (and no error).
\<close>

theorem chunk_text_count:
  assumes "length (split_ws text) = W" and "1 \<le> W"
    and "0 \<le> overlap" and "overlap < chunk_size"
  shows "\<exists>chunks. chunk_text text chunk_size overlap = Inr chunks \<and>
           int (length chunks) = \<lceil>real W / real_of_int (chunk_size - overlap)\<rceil>"
proof -
  have step: "0 < chunk_size - overlap" using assms by simp
  have "int (length (range_from 0 (int W) (chunk_size - overlap))) =
      (int W + (chunk_size - overlap) - 1) div (chunk_size - overlap)"
    using step assms(2) by (simp add: range_from_length pos_imp_zdiv_nonneg_iff)
  also have "\<dots> = \<lceil>real_of_int (int W) / real_of_int (chunk_size - overlap)\<rceil>"
    by (rule ceiling_div [OF step, symmetric])
  also have "real_of_int (int W) = real W" by simp
  finally have "int (length (range_from 0 (int W) (chunk_size - overlap))) =
      \<lceil>real W / real_of_int (chunk_size - overlap)\<rceil>" .
  moreover note chunk_text_positive_stride [OF assms(3,4), of "text"]
  ultimately show ?thesis using assms(1) by simp
qed

theorem chunk_text_count_witness:
  "length (split_ws ''the quick brown fox jumps'') = 5 \<and>
   (\<exists>chunks. chunk_text ''the quick brown fox jumps'' 3 1 = Inr chunks \<and>
      int (length chunks) = \<lceil>real 5 / real_of_int (3 - 1)\<rceil>) \<and>
   length (split_ws [CHR ''a'', CHR 0xA0, CHR ''b'']) = 2 \<and>
   (\<exists>chunks. chunk_text [CHR ''a'', CHR 0xA0, CHR ''b''] 1 0 = Inr chunks \<and>
      int (length chunks) = \<lceil>real 2 / real_of_int (1 - 0)\<rceil>)"
proof -
  have h: "length (split_ws ''the quick brown fox jumps'') = 5" by code_simp
  have k: "length (split_ws [CHR ''a'', CHR 0xA0, CHR ''b'']) = 2" by code_simp
  from chunk_text_count [OF h, of 1 3] chunk_text_count [OF k, of 0 1] h k
  show ?thesis by simp
qed

text \<open>
  Claim C9, as amended. For a text of \<open>W\<close> words with \<open>1 \<le> W < chunk_size\<close> and
  \<open>chunk_size > overlap \<ge> 0\<close>, the first chunk holds all \<open>W\<close> words joined by single
  spaces, and it is the only chunk exactly when \<open>W \<le> chunk_size - overlap\<close>. Otherwise
  further, shorter chunks follow, \<open>\<lceil>W / (chunk_size - overlap)\<rceil>\<close> chunks in all: the
  \<open>j\<close>-th further chunk holds the words from position \<open>j * (chunk_size - overlap)\<close> on, a
  position after the first word and before the end, joined by single spaces.
\<close>

theorem chunk_text_short_document:
  assumes "length (split_ws text) = W" and "1 \<le> W" and "int W < chunk_size"
    and "0 \<le> overlap" and "overlap < chunk_size"
  shows "\<exists>rest. chunk_text text chunk_size overlap = Inr (join '' '' (split_ws text) # rest) \<and>
           (rest = [] \<longleftrightarrow> int W \<le> chunk_size - overlap) \<and>
           int (length (join '' '' (split_ws text) # rest)) =
             \<lceil>real W / real_of_int (chunk_size - overlap)\<rceil> \<and>
           rest = map (\<lambda>j. join '' '' (drop (j * nat (chunk_size - overlap)) (split_ws text)))
                    [1..<Suc (length rest)] \<and>
           (\<forall>j. 1 \<le> j \<and> j \<le> length rest \<longrightarrow>
                0 < j * nat (chunk_size - overlap) \<and> j * nat (chunk_size - overlap) < W)"
proof -
  let ?step = "chunk_size - overlap"
  let ?words = "split_ws text"
  let ?f = "\<lambda>i. join '' '' (py_slice ?words i (i + chunk_size))"
  let ?g = "\<lambda>j. join '' '' (drop (j * nat ?step) ?words)"
  define n where "n = nat ((int W + ?step - 1) div ?step)"
  have step: "0 < ?step" and size: "0 < chunk_size" using assms by simp_all
  have "0 \<le> (int W + ?step - 1) div ?step"
    using step assms(2) by (simp add: pos_imp_zdiv_nonneg_iff)
  then have "int n = (int W + ?step - 1) div ?step" by (simp add: n_def)
  also have "\<dots> = \<lceil>real_of_int (int W) / real_of_int ?step\<rceil>"
    by (rule ceiling_div [OF step, symmetric])
  also have "real_of_int (int W) = real W" by simp
  finally have count: "int n = \<lceil>real W / real_of_int ?step\<rceil>" .
  have indices: "range_from 0 (int W) ?step = map (\<lambda>j. int j * ?step) [0..<n]"
    using range_from_map [OF step, of 0 "int W"] by (simp add: n_def)
  have below: "j * nat ?step < W" if "j < n" for j
  proof -
    from that have "j \<in> set [0..<n]" by simp
    then have "int j * ?step \<in> set (range_from 0 (int W) ?step)"
      unfolding indices set_map by (rule imageI)
    from range_from_set [OF step this] have "int j * ?step < int W" by simp
    moreover have "int (j * nat ?step) = int j * ?step" using step by simp
    ultimately show ?thesis by linarith
  qed
  have window: "?f (int j * ?step) = ?g j" for j
  proof -
    have "py_slice ?words (int j * ?step) (int j * ?step + chunk_size) =
        take (nat chunk_size) (drop (nat (int j * ?step)) ?words)"
      using step size by (intro py_slice_window) simp_all
    also have "nat (int j * ?step) = j * nat ?step"
      using step by (simp add: nat_mult_distrib)
    also have "take (nat chunk_size) (drop (j * nat ?step) ?words) = drop (j * nat ?step) ?words"
      using assms(1,3) by (intro take_all) simp
    finally show ?thesis by simp
  qed
  have "chunk_text text chunk_size overlap = Inr (map ?f (map (\<lambda>j. int j * ?step) [0..<n]))"
    using chunk_text_positive_stride [OF assms(4,5), of "text"] assms(1) indices by simp
  also have "map ?f (map (\<lambda>j. int j * ?step) [0..<n]) = map ?g [0..<n]"
    by (simp add: window)
  finally have chunks: "chunk_text text chunk_size overlap = Inr (map ?g [0..<n])" .
  have n1: "1 \<le> n"
  proof (rule ccontr)
    assume "\<not> 1 \<le> n"
    then have "range_from 0 (int W) ?step = []" unfolding indices by simp
    moreover have "range_from 0 (int W) ?step = 0 # range_from ?step (int W) ?step"
      using step assms(2) by (subst range_from.simps) simp
    ultimately show False by simp
  qed
  then have "[0..<n] = 0 # [1..<n]" by (simp add: upt_conv_Cons)
  then have "map ?g [0..<n] = join '' '' ?words # map ?g [1..<n]" by simp
  with chunks have first:
    "chunk_text text chunk_size overlap = Inr (join '' '' ?words # map ?g [1..<n])" by simp
  have len: "length (map ?g [1..<n]) = n - 1" by simp
  have only: "map ?g [1..<n] = [] \<longleftrightarrow> int W \<le> ?step"
  proof
    assume "map ?g [1..<n] = []"
    then have "n = 1" using n1 by simp
    with count have "\<lceil>real W / real_of_int ?step\<rceil> = 1" by simp
    then have "real W / real_of_int ?step \<le> 1" by (simp add: ceiling_eq_iff)
    then have "real W \<le> real_of_int ?step" using step by (simp add: pos_divide_le_eq)
    then show "int W \<le> ?step" by linarith
  next
    assume w: "int W \<le> ?step"
    have "\<not> 1 < n"
    proof
      assume "1 < n"
      then have "1 * nat ?step < W" by (rule below)
      with w step show False by simp
    qed
    then show "map ?g [1..<n] = []" by simp
  qed
  have shorter: "\<forall>j. 1 \<le> j \<and> j \<le> length (map ?g [1..<n]) \<longrightarrow>
      0 < j * nat ?step \<and> j * nat ?step < W"
    using below step n1 by (auto simp: len)
  have total: "int (length (join '' '' ?words # map ?g [1..<n])) =
      \<lceil>real W / real_of_int ?step\<rceil>"
    using count n1 by (simp add: len)
  have form: "map ?g [1..<n] = map ?g [1..<Suc (length (map ?g [1..<n]))]"
    using n1 by (simp add: len)
  from first only total form shorter show ?thesis by blast
qed

theorem chunk_text_short_document_witness:
  "length (split_ws ''a b c d e'') = 5 \<and>
   (\<exists>rest. chunk_text ''a b c d e'' 6 4 = Inr (join '' '' (split_ws ''a b c d e'') # rest) \<and>
      (rest = [] \<longleftrightarrow> int 5 \<le> 6 - 4) \<and>
      int (length (join '' '' (split_ws ''a b c d e'') # rest)) =
        \<lceil>real 5 / real_of_int (6 - 4)\<rceil> \<and>
      rest = map (\<lambda>j. join '' '' (drop (j * nat (6 - 4)) (split_ws ''a b c d e'')))
               [1..<Suc (length rest)] \<and>
      (\<forall>j. 1 \<le> j \<and> j \<le> length rest \<longrightarrow> 0 < j * nat (6 - 4) \<and> j * nat (6 - 4) < 5))"
proof -
  have h: "length (split_ws ''a b c d e'') = 5" by code_simp
  have "int 5 < 6" and "(0::int) \<le> 4" and "(4::int) < 6" and "1 \<le> (5::nat)" by simp_all
  from chunk_text_short_document [OF h this(4,1,2,3)] h show ?thesis by blast
qed

text \<open>
  Claim C9 as stated fails when the stride is shorter than the document: three words
  with size 4 and overlap 3 give three chunks, not one.
\<close>

theorem chunk_text_short_document_counterexample:
  "length (split_ws ''a b c'') < 4 \<and> (3::int) < 4 \<and>
   chunk_text ''a b c'' 4 3 = Inr [''a b c'', ''b c'', ''c'']"
  by code_simp

section \<open>Properties of the quiz parser\<close>

declare str_nat.simps [simp del]


lemma split_aux_not_Nil: "split_aux sep cur t \<noteq> []"
  by (induction sep cur t rule: split_aux.induct) auto

lemma split1_aux_char:
  "split1_aux [s] cur t =
     (if s \<in> set t then [rev cur @ takeWhile (\<lambda>c. c \<noteq> s) t, tl (dropWhile (\<lambda>c. c \<noteq> s) t)]
      else [rev cur @ t])"
  by (induction t arbitrary: cur) auto












lemma upper_small_letter:
  assumes "c \<in> set ''ABCDabcd''"
  shows "upper [c] \<in> set LETTERS"
proof -
  have "list_all (\<lambda>c. upper [c] \<in> set LETTERS) ''ABCDabcd''" by code_simp
  with assms show ?thesis unfolding list_all_iff by blast
qed







lemma parse_line_id: "parse_line i q line = Inr q' \<Longrightarrow> id' q' = id' q"
  by (auto simp: parse_line_def split: if_splits sum.splits)



lemma parse_lines_id: "parse_lines i q ls = Inr q' \<Longrightarrow> id' q' = id' q"
  by (induction ls arbitrary: q) (auto split: sum.splits dest: parse_line_id)






lemma keys_missing:
  assumes "distinct (map fst opts)" and "fst ` set opts \<subseteq> set LETTERS - {K}"
    and "K \<in> set LETTERS"
  shows "length opts < 4"
proof -
  have "card (fst ` set opts) \<le> card (set LETTERS - {K})"
    using assms(2) by (intro card_mono) simp_all
  also have "\<dots> < card (set LETTERS)"
    using assms(3) by (intro psubset_card_mono) auto
  also have "\<dots> = 4" by (simp add: LETTERS_def)
  finally show ?thesis using assms(1) distinct_card [of "map fst opts"] by simp
qed










lemma kept_length: "length (kept k s) \<le> 1"
  by (simp add: kept_def split: sum.splits option.splits)

lemma concat_kept_length:
  "length (concat (map (\<lambda>(k, s). kept k s) ps)) \<le> length ps"
proof (induction ps)
  case Nil
  show ?case by simp
next
  case (Cons p ps)
  obtain k s where p: "p = (k, s)" by (cases p)
  from kept_length [of k s] Cons show ?case by (simp add: p)
qed









text \<open>
  Claim C10 fails. A section of at least six lines with a \<open>Correct:\<close> line that has
  nothing after its colon, or only whitespace before a second colon, makes \<open>parse_quiz\<close>
  raise \<open>IndexError\<close>: the first character of an empty string is taken.
\<close>

theorem parse_quiz_empty_correct_raises:
  "parse_quiz (join [CHR 0x0A] [''Q: What is 2+2?'', ''A) 3'', ''B) 4'', ''C) 5'', ''D) 6'', ''Correct:'', ''Explanation: sum'']) =
     Inl IndexError \<and>
   parse_quiz (join [CHR 0x0A] [''Q: What is 2+2?'', ''A) 3'', ''B) 4'', ''C) 5'', ''D) 6'', ''Correct: : B'', ''Explanation: sum'']) =
     Inl IndexError"
  by code_simp

section \<open>Properties of quiz generation\<close>

lemma renumber_ids: "map id' (renumber questions) = [1..<Suc (length questions)]"
proof -
  have "map id' (renumber questions) =
      map fst (zip [1..<Suc (length questions)] questions)"
    by (simp add: renumber_def case_prod_unfold)
  also have "\<dots> = [1..<Suc (length questions)]"
    by (rule map_fst_zip) (simp del: upt_Suc)
  finally show ?thesis .
qed

lemma generate_quiz_calls_bound: "length (fst (generate_quiz ollama shuffle now filtered)) \<le> 3"
  by (simp add: generate_quiz_def attempt_def Let_def split: sum.splits)

lemma generate_quiz_second_call:
  assumes "3 \<le> length filtered"
    and "ask ollama 0 prompt context = Inr questions1" and "length questions1 < 3"
    and "context = join [CHR 0x0A] (shuffle filtered)" and "prompt = quiz_prompt now"
  shows "take 2 (fst (generate_quiz ollama shuffle now filtered)) =
           [(prompt, context), (retry_prompt (length questions1) prompt, context)]"
  using assms by (simp add: generate_quiz_def attempt_def Let_def split: sum.splits)

lemma generate_quiz_third_call:
  assumes "3 \<le> length filtered"
    and "ask ollama 0 prompt context = Inr questions1" and "length questions1 < 3"
    and "ask ollama 1 (retry_prompt (length questions1) prompt) context = Inr questions2"
    and "length questions2 < 3" and "8 < length (shuffle filtered)"
    and "context = join [CHR 0x0A] (shuffle filtered)" and "prompt = quiz_prompt now"
  shows "fst (generate_quiz ollama shuffle now filtered) =
           [(prompt, context), (retry_prompt (length questions1) prompt, context),
            (prompt, join [CHR 0x0A] (take 15 (shuffle filtered)))]"
  using assms by (simp add: generate_quiz_def attempt_def Let_def split: sum.splits)

lemma generate_quiz_no_third_call:
  assumes "3 \<le> length filtered"
    and "ask ollama 0 prompt context = Inr questions1" and "length questions1 < 3"
    and "ask ollama 1 (retry_prompt (length questions1) prompt) context = Inr questions2"
    and "length questions2 < 3" and "questions2 \<noteq> []" and "length (shuffle filtered) \<le> 8"
    and "context = join [CHR 0x0A] (shuffle filtered)" and "prompt = quiz_prompt now"
  shows "generate_quiz ollama shuffle now filtered =
           ([(prompt, context), (retry_prompt (length questions1) prompt, context)],
            Ok200 (renumber (map (\<lambda>q. clean_question_with_context q context) questions2)))"
  using assms by (simp add: generate_quiz_def attempt_def Let_def)

text \<open>
  Claim C2, as amended. A request makes at most three generation calls. When the first
  parse gives fewer than three questions, the second call is the reminder retry, with the
  same context. When the parse of the retry still gives fewer than three and there are
  more than eight filtered lines, there is exactly one further call, with the original
  prompt and, as context, the first fifteen lines of the shuffled list (the order of the
  first context, not the order before the shuffle). When there are eight lines or fewer
  and the retry gave one or two questions, there is no third call and these questions
  are returned, cleaned, with ids 1, 2, ... in order. \<open>shuffle\<close> keeps the number of lines.
\<close>

theorem generate_quiz_retry_policy:
  fixes ollama :: service and shuffle :: "string list \<Rightarrow> string list" and now :: string
    and filtered :: "string list"
  defines "context \<equiv> join [CHR 0x0A] (shuffle filtered)"
    and "prompt \<equiv> quiz_prompt now"
    and "retry \<equiv> (\<lambda>questions. retry_prompt (length questions) (quiz_prompt now))"
  assumes "length (shuffle filtered) = length filtered"
  shows "length (fst (generate_quiz ollama shuffle now filtered)) \<le> 3 \<and>
    (3 \<le> length filtered \<and> ask ollama 0 prompt context = Inr questions1 \<and>
       length questions1 < 3 \<longrightarrow>
       take 2 (fst (generate_quiz ollama shuffle now filtered)) =
         [(prompt, context), (retry questions1, context)]) \<and>
    (3 \<le> length filtered \<and> ask ollama 0 prompt context = Inr questions1 \<and>
       length questions1 < 3 \<and> ask ollama 1 (retry questions1) context = Inr questions2 \<and>
       length questions2 < 3 \<and> 8 < length filtered \<longrightarrow>
       fst (generate_quiz ollama shuffle now filtered) =
         [(prompt, context), (retry questions1, context),
          (prompt, join [CHR 0x0A] (take 15 (shuffle filtered)))]) \<and>
    (3 \<le> length filtered \<and> ask ollama 0 prompt context = Inr questions1 \<and>
       length questions1 < 3 \<and> ask ollama 1 (retry questions1) context = Inr questions2 \<and>
       length questions2 < 3 \<and> questions2 \<noteq> [] \<and> length filtered \<le> 8 \<longrightarrow>
       generate_quiz ollama shuffle now filtered =
         ([(prompt, context), (retry questions1, context)],
          Ok200 (renumber (map (\<lambda>q. clean_question_with_context q context) questions2))) \<and>
       map id' (renumber (map (\<lambda>q. clean_question_with_context q context) questions2)) =
         [1..<Suc (length questions2)])"
proof (intro conjI impI)
  show "length (fst (generate_quiz ollama shuffle now filtered)) \<le> 3"
    by (rule generate_quiz_calls_bound)
next
  assume "3 \<le> length filtered \<and> ask ollama 0 prompt context = Inr questions1 \<and>
       length questions1 < 3"
  then show "take 2 (fst (generate_quiz ollama shuffle now filtered)) =
         [(prompt, context), (retry questions1, context)]"
    unfolding retry_def prompt_def [symmetric]
    by (intro generate_quiz_second_call) (simp_all add: context_def prompt_def)
next
  assume "3 \<le> length filtered \<and> ask ollama 0 prompt context = Inr questions1 \<and>
       length questions1 < 3 \<and> ask ollama 1 (retry questions1) context = Inr questions2 \<and>
       length questions2 < 3 \<and> 8 < length filtered"
  then show "fst (generate_quiz ollama shuffle now filtered) =
         [(prompt, context), (retry questions1, context),
          (prompt, join [CHR 0x0A] (take 15 (shuffle filtered)))]"
    unfolding retry_def prompt_def [symmetric] using assms(4)
    by (intro generate_quiz_third_call [where ?questions2.0 = questions2])
      (simp_all add: context_def prompt_def)
next
  assume "3 \<le> length filtered \<and> ask ollama 0 prompt context = Inr questions1 \<and>
       length questions1 < 3 \<and> ask ollama 1 (retry questions1) context = Inr questions2 \<and>
       length questions2 < 3 \<and> questions2 \<noteq> [] \<and> length filtered \<le> 8"
  then show "generate_quiz ollama shuffle now filtered =
         ([(prompt, context), (retry questions1, context)],
          Ok200 (renumber (map (\<lambda>q. clean_question_with_context q context) questions2)))"
    unfolding retry_def prompt_def [symmetric] using assms(4)
    by (intro generate_quiz_no_third_call) (simp_all add: context_def prompt_def)
next
  show "map id' (renumber (map (\<lambda>q. clean_question_with_context q context) questions2)) =
         [1..<Suc (length questions2)]"
    by (simp add: renumber_ids)
qed

theorem generate_quiz_retry_policy_witness:
  "length (fst (generate_quiz two_question_service rev ''0'' [''s1'', ''s2'', ''s3'', ''s4'', ''s5'', ''s6'', ''s7'', ''s8'', ''s9''])) \<le> 3 \<and>
   take 2 (fst (generate_quiz two_question_service rev ''0'' [''s1'', ''s2'', ''s3''])) =
     [(quiz_prompt ''0'', join [CHR 0x0A] [''s3'', ''s2'', ''s1'']),
      (retry_prompt 2 (quiz_prompt ''0''), join [CHR 0x0A] [''s3'', ''s2'', ''s1''])] \<and>
   fst (generate_quiz two_question_service rev ''0'' [''s1'', ''s2'', ''s3'', ''s4'', ''s5'', ''s6'', ''s7'', ''s8'', ''s9'']) =
     [(quiz_prompt ''0'', join [CHR 0x0A] [''s9'', ''s8'', ''s7'', ''s6'', ''s5'', ''s4'', ''s3'', ''s2'', ''s1'']),
      (retry_prompt 2 (quiz_prompt ''0''), join [CHR 0x0A] [''s9'', ''s8'', ''s7'', ''s6'', ''s5'', ''s4'', ''s3'', ''s2'', ''s1'']),
      (quiz_prompt ''0'', join [CHR 0x0A] [''s9'', ''s8'', ''s7'', ''s6'', ''s5'', ''s4'', ''s3'', ''s2'', ''s1''])] \<and>
   generate_quiz two_question_service rev ''0'' [''s1'', ''s2'', ''s3''] =
     ([(quiz_prompt ''0'', join [CHR 0x0A] [''s3'', ''s2'', ''s1'']),
       (retry_prompt 2 (quiz_prompt ''0''), join [CHR 0x0A] [''s3'', ''s2'', ''s1''])],
      Ok200 [\<lparr>id' = 1, question = ''What is 2+2?'',
             options = [(''A'', ''3''), (''B'', ''4''), (''C'', ''5''), (''D'', ''6'')],
             correct = ''B'', explanation = ''sum''\<rparr>,
             \<lparr>id' = 2, question = ''What is 3+3?'',
             options = [(''A'', ''6''), (''B'', ''7''), (''C'', ''8''), (''D'', ''9'')],
             correct = ''A'', explanation = ''sum''\<rparr>])"
proof -
  define F9 where "F9 = [''s1'', ''s2'', ''s3'', ''s4'', ''s5'', ''s6'', ''s7'', ''s8'', ''s9'']"
  define F3 where "F3 = [''s1'', ''s2'', ''s3'']"
  define QS where "QS = [\<lparr>id' = 1, question = ''What is 2+2?'',
             options = [(''A'', ''3''), (''B'', ''4''), (''C'', ''5''), (''D'', ''6'')],
             correct = ''B'', explanation = ''sum''\<rparr>,
             \<lparr>id' = 2, question = ''What is 3+3?'',
             options = [(''A'', ''6''), (''B'', ''7''), (''C'', ''8''), (''D'', ''9'')],
             correct = ''A'', explanation = ''sum Referencing: line 2''\<rparr>]"
  have r9: "rev F9 = [''s9'', ''s8'', ''s7'', ''s6'', ''s5'', ''s4'', ''s3'', ''s2'', ''s1'']"
    and r3: "rev F3 = [''s3'', ''s2'', ''s1'']"
    and t9: "take 15 [''s9'', ''s8'', ''s7'', ''s6'', ''s5'', ''s4'', ''s3'', ''s2'', ''s1''] =
      [''s9'', ''s8'', ''s7'', ''s6'', ''s5'', ''s4'', ''s3'', ''s2'', ''s1'']"
    unfolding F9_def F3_def by simp_all
  have l: "length (rev F9) = length F9" "length (rev F3) = length F3" "3 \<le> length F9"
    "3 \<le> length F3" "8 < length F9" "length F3 \<le> 8" "length QS < 3" "QS \<noteq> []"
    "length QS = 2"
    unfolding F9_def F3_def QS_def by simp_all
  have a: "ask two_question_service n p c = Inr QS" for n p c
  proof -
    have "parse_quiz two_question_reply = Inr QS" unfolding QS_def by code_simp
    then show ?thesis by (simp add: ask_def two_question_service_def)
  qed
  have c: "renumber (map (\<lambda>q. clean_question_with_context q
      (join [CHR 0x0A] [''s3'', ''s2'', ''s1''])) QS) =
      [\<lparr>id' = 1, question = ''What is 2+2?'',
             options = [(''A'', ''3''), (''B'', ''4''), (''C'', ''5''), (''D'', ''6'')],
             correct = ''B'', explanation = ''sum''\<rparr>,
             \<lparr>id' = 2, question = ''What is 3+3?'',
             options = [(''A'', ''6''), (''B'', ''7''), (''C'', ''8''), (''D'', ''9'')],
             correct = ''A'', explanation = ''sum''\<rparr>]"
    unfolding QS_def by code_simp
  note thm9 = generate_quiz_retry_policy [where ollama = two_question_service
      and shuffle = rev and now = "''0''" and filtered = F9 and ?questions1.0 = QS
      and ?questions2.0 = QS, OF l(1)]
  note thm3 = generate_quiz_retry_policy [where ollama = two_question_service
      and shuffle = rev and now = "''0''" and filtered = F3 and ?questions1.0 = QS
      and ?questions2.0 = QS, OF l(2)]
  from thm9 have c1: "length (fst (generate_quiz two_question_service rev ''0'' F9)) \<le> 3"
    by blast
  from thm3 l a have c2: "take 2 (fst (generate_quiz two_question_service rev ''0'' F3)) =
     [(quiz_prompt ''0'', join [CHR 0x0A] (rev F3)),
      (retry_prompt (length QS) (quiz_prompt ''0''), join [CHR 0x0A] (rev F3))]"
    by blast
  from thm9 l a have c3: "fst (generate_quiz two_question_service rev ''0'' F9) =
     [(quiz_prompt ''0'', join [CHR 0x0A] (rev F9)),
      (retry_prompt (length QS) (quiz_prompt ''0''), join [CHR 0x0A] (rev F9)),
      (quiz_prompt ''0'', join [CHR 0x0A] (take 15 (rev F9)))]"
    by blast
  from thm3 l a have c4: "generate_quiz two_question_service rev ''0'' F3 =
     ([(quiz_prompt ''0'', join [CHR 0x0A] (rev F3)),
       (retry_prompt (length QS) (quiz_prompt ''0''), join [CHR 0x0A] (rev F3))],
      Ok200 (renumber (map (\<lambda>q. clean_question_with_context q (join [CHR 0x0A] (rev F3))) QS)))"
    by blast
  from c1 c2 c3 c4 show ?thesis
    unfolding l(9) r9 r3 unfolding c t9 F9_def F3_def by blast
qed

text \<open>
  Claim C2 as stated fails on the context of the third call. With nine filtered lines,
  a shuffle that reverses them and a service that always answers with two questions,
  the third call gets the lines in the shuffled order, \<open>s9\<close> first, which is not the
  first fifteen lines in their order before the shuffle.
\<close>

theorem generate_quiz_shuffled_context_counterexample:
  "snd (fst (generate_quiz two_question_service rev ''0'' [''s1'', ''s2'', ''s3'', ''s4'', ''s5'', ''s6'', ''s7'', ''s8'', ''s9'']) ! 2) =
     join [CHR 0x0A] [''s9'', ''s8'', ''s7'', ''s6'', ''s5'', ''s4'', ''s3'', ''s2'', ''s1''] \<and>
   join [CHR 0x0A] [''s9'', ''s8'', ''s7'', ''s6'', ''s5'', ''s4'', ''s3'', ''s2'', ''s1''] \<noteq>
     join [CHR 0x0A] (take 15 [''s1'', ''s2'', ''s3'', ''s4'', ''s5'', ''s6'', ''s7'', ''s8'', ''s9''])"
  by code_simp

end
